theory Spec2Isabelle
  imports Main "HOL-Library.Word"
begin

unbundle bit_operations_syntax

section \<open>Data model of the CDC-ECM driver (cdc\_ecm.go)\<close>

text \<open>
  Go's \<open>byte\<close> is an 8-bit word and a \<open>[]byte\<close> a list of them. An \<open>error\<close> value is
  represented by its message, \<open>nil\<close> by \<open>None\<close>. The two run-time panics that the
  receive and transmit paths can raise are values of \<open>panic\<close>.
\<close>

type_synonym byte = "8 word"
type_synonym uint16 = "16 word"
type_synonym uint32 = "32 word"
type_synonym error = string

datatype panic = SliceBoundsOutOfRange | NilPointerDereference

text \<open>
  \<open>stack.PacketBuffer\<close> and \<open>channel.Endpoint\<close> belong to gVisor, not to this
  package. They are modelled by what \<open>ECMRx\<close> and \<open>ECMTx\<close> write to and read from
  them. gVisor declares \<open>tcpip.NetworkProtocolNumber\<close> as \<open>uint32\<close>; the conversions
  \<open>uint16(pkt.NetworkProtocolNumber)\<close> and \<open>tcpip.NetworkProtocolNumber(...)\<close> of the
  source are the truncation and the zero extension between the two widths.
  The payload of a packet is a buffer of views (byte slices), in order.
\<close>

record PacketBuffer =
  NetworkProtocolNumber :: uint32
  ReserveHeaderBytes :: nat
  LinkHeader :: "byte list"
  Payload :: "byte list list"

text \<open>
  The link endpoint: \<open>inbound\<close> lists the calls of \<open>InjectInbound\<close> (protocol number and
  packet), oldest first; \<open>outbound\<close> is the queue that \<open>Read\<close> takes packets from.
\<close>

record Endpoint =
  inbound :: "(uint32 \<times> PacketBuffer) list"
  outbound :: "PacketBuffer list"

record NIC =
  HostMAC :: "byte list"
  DeviceMAC :: "byte list"
  Link :: "Endpoint option"
  maxPacketSize :: int
  buf :: "byte list"

subsection \<open>Library operations used by the driver\<close>

text \<open>Go's slice expression \<open>b[lo:hi]\<close>, for bounds that are in range.\<close>

definition slice :: "'a list \<Rightarrow> nat \<Rightarrow> nat \<Rightarrow> 'a list" where
  "slice b lo hi = take (hi - lo) (drop lo b)"

text \<open>
  \<open>binary.BigEndian.Uint16\<close> is \<open>uint16(b[1]) | uint16(b[0])<<8\<close> and
  \<open>binary.BigEndian.PutUint16\<close> stores \<open>byte(v >> 8)\<close> and \<open>byte(v)\<close>. The driver
  applies the former to a slice of exactly two bytes.
\<close>

definition Uint16 :: "byte list \<Rightarrow> uint16" where
  "Uint16 b = (ucast (b ! 1) :: uint16) OR push_bit 8 (ucast (b ! 0) :: uint16)"

definition PutUint16 :: "uint16 \<Rightarrow> byte list" where
  "PutUint16 v = [ucast (drop_bit 8 v), ucast v]"

definition MakeWithData :: "byte list \<Rightarrow> byte list list" where
  "MakeWithData b = [b]"

definition NewPacketBuffer :: "nat \<Rightarrow> byte list list \<Rightarrow> PacketBuffer" where
  "NewPacketBuffer reserve payload =
     \<lparr>NetworkProtocolNumber = 0, ReserveHeaderBytes = reserve, LinkHeader = [],
      Payload = payload\<rparr>"

text \<open>\<open>AsSlices\<close> of a packet read from the outbound queue: its views.\<close>

definition AsSlices :: "PacketBuffer \<Rightarrow> byte list list" where
  "AsSlices pkt = Payload pkt"

definition InjectInbound :: "Endpoint \<Rightarrow> uint32 \<Rightarrow> PacketBuffer \<Rightarrow> Endpoint" where
  "InjectInbound e protocol pkt = e\<lparr>inbound := inbound e @ [(protocol, pkt)]\<rparr>"

text \<open>\<open>Read\<close> does not block: it yields the oldest queued packet, or nil.\<close>

definition Read :: "Endpoint \<Rightarrow> PacketBuffer option \<times> Endpoint" where
  "Read e = (case outbound e of
               [] \<Rightarrow> (None, e)
             | pkt # rest \<Rightarrow> (Some pkt, e\<lparr>outbound := rest\<rparr>))"

section \<open>The endpoint functions\<close>

text \<open>
  Each function takes the NIC, the transfer's bytes and the last transfer error, and
  returns the NIC as it leaves it together with the two results of the Go function
  (bytes and error), or the panic it raises. The slice expressions of \<open>ECMRx\<close> panic
  exactly when the accumulated buffer holds fewer than 14 bytes (\<open>eth.buf[14:]\<close> at the
  latest), before anything is injected.
\<close>

definition ECMRx ::
  "NIC \<Rightarrow> byte list \<Rightarrow> error option \<Rightarrow> panic + (NIC \<times> byte list \<times> error option)" where
  "ECMRx eth out lastErr =
     (if length (buf eth) = 0 \<and> length out < 14 then Inr (eth, [], None)
      else
        let eth1 = eth\<lparr>buf := buf eth @ out\<rparr> in
        if int (length out) = maxPacketSize eth1 then Inr (eth1, [], None)
        else if length (buf eth1) < 14 then Inl SliceBoundsOutOfRange
        else
          let hdr = slice (buf eth1) 0 14;
              proto = (ucast (Uint16 (slice (buf eth1) 12 14)) :: uint32);
              payload = drop 14 (buf eth1);
              pkt = NewPacketBuffer (length hdr) (MakeWithData payload);
              pkt1 = pkt\<lparr>LinkHeader := hdr\<rparr>
          in case Link eth1 of
               None \<Rightarrow> Inl NilPointerDereference
             | Some l \<Rightarrow>
                 Inr (eth1\<lparr>Link := Some (InjectInbound l proto pkt1), buf := []\<rparr>, [], None))"

definition ECMTx ::
  "NIC \<Rightarrow> byte list \<Rightarrow> error option \<Rightarrow> panic + (NIC \<times> byte list \<times> error option)" where
  "ECMTx eth unused lastErr =
     (case Link eth of
        None \<Rightarrow> Inl NilPointerDereference
      | Some l \<Rightarrow>
          (case Read l of
             (None, l1) \<Rightarrow> Inr (eth\<lparr>Link := Some l1\<rparr>, [], None)
           | (Some pkt, l1) \<Rightarrow>
               let proto = PutUint16 (ucast (NetworkProtocolNumber pkt));
                   in0 = (([] @ HostMAC eth) @ DeviceMAC eth) @ proto;
                   in1 = foldl (\<lambda>acc v. acc @ v) in0 (AsSlices pkt)
               in Inr (eth\<lparr>Link := Some l1\<rparr>, in1, None)))"

text \<open>
  The USB layer calls the OUT endpoint function once per completed transfer, in arrival
  order; \<open>rx_all\<close> runs it over a sequence of transfers and stops at a panic.
\<close>

fun rx_all :: "NIC \<Rightarrow> byte list list \<Rightarrow> panic + NIC" where
  "rx_all eth [] = Inr eth"
| "rx_all eth (c # cs) =
     (case ECMRx eth c None of
        Inl p \<Rightarrow> Inl p
      | Inr (eth1, _, _) \<Rightarrow> rx_all eth1 cs)"

text \<open>
  \<open>ECMControl\<close>, the function of the interrupt endpoint, does nothing. The USB layer
  calls the three endpoint functions in whatever order the host drives them;
  \<open>calls\<close> runs such a sequence on the NIC and stops at a panic.
\<close>

definition ECMControl ::
  "NIC \<Rightarrow> byte list \<Rightarrow> error option \<Rightarrow> panic + (NIC \<times> byte list \<times> error option)" where
  "ECMControl eth unused lastErr = Inr (eth, [], None)"

datatype call =
    Rx "byte list" "error option"
  | Tx "byte list" "error option"
  | Control "byte list" "error option"

fun endpoint_function ::
  "NIC \<Rightarrow> call \<Rightarrow> panic + (NIC \<times> byte list \<times> error option)" where
  "endpoint_function eth (Rx out lastErr) = ECMRx eth out lastErr"
| "endpoint_function eth (Tx unused lastErr) = ECMTx eth unused lastErr"
| "endpoint_function eth (Control unused lastErr) = ECMControl eth unused lastErr"

fun calls :: "NIC \<Rightarrow> call list \<Rightarrow> panic + NIC" where
  "calls eth [] = Inr eth"
| "calls eth (c # cs) =
     (case endpoint_function eth c of
        Inl p \<Rightarrow> Inl p
      | Inr (eth1, _, _) \<Rightarrow> calls eth1 cs)"

text \<open>The error result of a call (\<open>nil\<close> when the call panics and returns nothing).\<close>

definition returned_err :: "panic + (NIC \<times> byte list \<times> error option) \<Rightarrow> error option" where
  "returned_err r = (case r of Inl _ \<Rightarrow> None | Inr (_, _, e) \<Rightarrow> e)"

text \<open>The packet that \<open>ECMRx\<close> builds from a complete frame, and its protocol number.\<close>

definition frame_proto :: "byte list \<Rightarrow> uint32" where
  "frame_proto b = ucast (Uint16 (slice b 12 14))"

definition frame_pkt :: "byte list \<Rightarrow> PacketBuffer" where
  "frame_pkt b = (NewPacketBuffer (length (slice b 0 14)) (MakeWithData (drop 14 b)))
                   \<lparr>LinkHeader := slice b 0 14\<rparr>"

text \<open>
  A sequence of transfers that carries one frame under the CDC-ECM rule: every transfer
  but the last has exactly the maximum packet size, and the last one has not.
\<close>

definition ecm_transfers :: "int \<Rightarrow> byte list list \<Rightarrow> bool" where
  "ecm_transfers mps cs =
     (cs \<noteq> [] \<and> list_all (\<lambda>c. int (length c) = mps) (butlast cs)
      \<and> int (length (last cs)) \<noteq> mps)"

text \<open>
  What a run has delivered to the network stack: protocol number and payload bytes of
  every injected packet, oldest first (nothing after a panic or without a link).
\<close>

definition injected :: "panic + NIC \<Rightarrow> (uint32 \<times> byte list) list" where
  "injected r =
     (case r of
        Inl _ \<Rightarrow> []
      | Inr eth \<Rightarrow>
          (case Link eth of
             None \<Rightarrow> []
           | Some l \<Rightarrow> map (\<lambda>(protocol, pkt). (protocol, concat (Payload pkt))) (inbound l)))"

subsection \<open>Package constants and a concrete interface\<close>

text \<open>
  \<open>MaxPacketSize\<close> (512) is the package variable that \<open>addDataInterfaces\<close> copies into
  \<open>eth.maxPacketSize\<close>; \<open>MTU\<close> (1500) is the one the link endpoint is created with.
  \<open>nic0\<close> is a NIC as \<open>Init\<close> accepts it (a link, two 6-byte MAC addresses, here the
  ones of the package documentation) with nothing received or queued yet.
\<close>

definition MaxPacketSize :: uint16 where
  "MaxPacketSize = 512"

definition MTU :: nat where
  "MTU = 1500"

definition link0 :: Endpoint where
  "link0 = \<lparr>inbound = [], outbound = []\<rparr>"

definition nic0 :: NIC where
  "nic0 = \<lparr>HostMAC = [0x1a, 0x55, 0x89, 0xa2, 0x69, 0x41],
           DeviceMAC = [0x1a, 0x55, 0x89, 0xa2, 0x69, 0x42],
           Link = Some link0,
           maxPacketSize = uint MaxPacketSize,
           buf = []\<rparr>"

text \<open>
  A 20-byte Ethernet frame: destination, source, ethertype \<open>0x0800\<close>, six payload bytes.
\<close>

definition frame20 :: "byte list" where
  "frame20 = [0x1a, 0x55, 0x89, 0xa2, 0x69, 0x42, 0x1a, 0x55, 0x89, 0xa2, 0x69, 0x41,
              0x08, 0x00, 1, 2, 3, 4, 5, 6]"

text \<open>A transfer of exactly 512 bytes.\<close>

definition chunk512 :: "byte list" where
  "chunk512 = replicate 512 0"

text \<open>
  Two outbound packets of three payload bytes in two views: one with the IPv4 protocol
  number, one with a protocol number that does not fit 16 bits.
\<close>

definition pkt_ipv4 :: PacketBuffer where
  "pkt_ipv4 = \<lparr>NetworkProtocolNumber = 0x0800, ReserveHeaderBytes = 0, LinkHeader = [],
               Payload = [[1, 2], [3]]\<rparr>"

definition pkt_wide :: PacketBuffer where
  "pkt_wide = \<lparr>NetworkProtocolNumber = 0x10800, ReserveHeaderBytes = 0, LinkHeader = [],
               Payload = [[1, 2], [3]]\<rparr>"

text \<open>
  The 17-byte frame that carries three payload bytes with ethertype \<open>0x0800\<close> from the
  device to the host.
\<close>

definition frame17 :: "byte list" where
  "frame17 = [0x1a, 0x55, 0x89, 0xa2, 0x69, 0x41, 0x1a, 0x55, 0x89, 0xa2, 0x69, 0x42,
              0x08, 0x00, 1, 2, 3]"

section \<open>Basic facts\<close>

lemma ECMRx_drop:
  "buf eth = [] \<Longrightarrow> length out < 14 \<Longrightarrow> ECMRx eth out e = Inr (eth, [], None)"
  by (simp add: ECMRx_def)

lemma ECMRx_defer:
  "buf eth \<noteq> [] \<or> 14 \<le> length out \<Longrightarrow> int (length out) = maxPacketSize eth \<Longrightarrow>
   ECMRx eth out e = Inr (eth\<lparr>buf := buf eth @ out\<rparr>, [], None)"
  by (auto simp add: ECMRx_def)

lemma ECMRx_dispatch:
  "buf eth \<noteq> [] \<or> 14 \<le> length out \<Longrightarrow> int (length out) \<noteq> maxPacketSize eth \<Longrightarrow>
   14 \<le> length (buf eth @ out) \<Longrightarrow> Link eth = Some l \<Longrightarrow>
   ECMRx eth out e =
     Inr (eth\<lparr>Link := Some (l\<lparr>inbound := inbound l @
                 [(frame_proto (buf eth @ out), frame_pkt (buf eth @ out))]\<rparr>),
              buf := []\<rparr>, [], None)"
  by (auto simp add: ECMRx_def Let_def InjectInbound_def frame_proto_def frame_pkt_def)

subsection \<open>Big-endian encoding\<close>

lemma byte_or_shift:
  fixes a b :: byte
  shows "unat ((ucast b :: uint16) OR push_bit 8 (ucast a :: uint16)) = 256 * unat a + unat b"
proof -
  have b8: "take_bit 8 (unat b) = unat b"
    using unsigned_less [of b, where ?'a = nat] by (simp add: take_bit_nat_eq_self)
  have a8: "unat a < 2 ^ 8"
    using unsigned_less [of a, where ?'a = nat] by simp
  have pa: "take_bit 16 (push_bit 8 (unat a)) = push_bit 8 (unat a)"
    using a8 by (simp add: take_bit_nat_eq_self push_bit_eq_mult)
  have tb: "take_bit 16 (unat b) = unat b"
    using unsigned_less [of b, where ?'a = nat] by (simp add: take_bit_nat_eq_self)
  have ta: "take_bit 16 (unat a) = unat a"
    using unsigned_less [of a, where ?'a = nat] by (simp add: take_bit_nat_eq_self)
  have "unat ((ucast b :: uint16) OR push_bit 8 (ucast a :: uint16))
        = unat b OR push_bit 8 (unat a)"
    by (simp add: unsigned_or_eq unsigned_push_bit_eq unsigned_ucast_eq pa tb ta)
  also have "\<dots> = unat b + push_bit 8 (unat a)"
  proof -
    have "unat b + push_bit 8 (unat a) = unat b OR push_bit 8 (unat a)"
    proof (rule disjunctive_add_eq_or, rule bit_eqI)
      fix n
      have "bit (unat b) n \<Longrightarrow> n < 8"
        by (metis b8 bit_take_bit_iff)
      then show "bit (unat b AND push_bit 8 (unat a)) n = bit (0::nat) n"
        by (auto simp add: bit_and_iff bit_push_bit_iff)
    qed
    then show ?thesis by simp
  qed
  finally show ?thesis by (simp add: push_bit_eq_mult)
qed

lemma Uint16_pair: "unat (Uint16 [a, b]) = 256 * unat a + unat b"
  by (simp add: Uint16_def byte_or_shift)

lemma Uint16_PutUint16: "Uint16 (PutUint16 v) = v"
  apply (simp add: Uint16_def PutUint16_def)
  apply (rule bit_word_eqI)
  apply (auto simp add: bit_simps)
  done

lemma PutUint16_value:
  "PutUint16 v = [hi, lo] \<Longrightarrow> 256 * unat hi + unat lo = unat v"
  using Uint16_pair [of hi lo] Uint16_PutUint16 [of v] by simp

lemma uint16_of_uint32: "unat (ucast (T :: uint32) :: uint16) = unat T mod 65536"
  by (simp add: unsigned_ucast_eq take_bit_eq_mod)

lemma uint32_of_uint16: "unat (ucast (v :: uint16) :: uint32) = unat v"
  apply (simp add: unsigned_ucast_eq take_bit_eq_mod)
  using unsigned_less [of v, where ?'a = nat] by simp

lemma uint32_uint16_id:
  assumes lt: "unat (T :: uint32) < 65536"
  shows "(ucast (ucast T :: uint16) :: uint32) = T"
proof -
  have "unat (ucast (ucast T :: uint16) :: uint32) = take_bit 32 (take_bit 16 (unat T))"
    by (simp add: unsigned_ucast_eq unsigned_take_bit_eq)
  also have "\<dots> = unat T"
    using lt by (simp add: take_bit_nat_eq_self)
  finally show ?thesis
    by (simp only: word_unat_eq_iff)
qed

subsection \<open>The frame that ECMRx dispatches\<close>

lemma frame_proto_value:
  "14 \<le> length b \<Longrightarrow> unat (frame_proto b) = 256 * unat (b ! 12) + unat (b ! 13)"
  by (simp add: frame_proto_def uint32_of_uint16 Uint16_def slice_def byte_or_shift)

lemma frame_pkt_fields:
  "Payload (frame_pkt b) = [drop 14 b]"
  "LinkHeader (frame_pkt b) = take 14 b"
  "NetworkProtocolNumber (frame_pkt b) = 0"
  by (simp_all add: frame_pkt_def NewPacketBuffer_def MakeWithData_def slice_def)

subsection \<open>Runs of the endpoint functions\<close>

lemma ECMRx_step:
  assumes "Link eth = Some l" "buf eth = [] \<or> 14 \<le> length (buf eth)"
  shows "\<exists>eth1 l1. ECMRx eth out e = Inr (eth1, [], None) \<and> Link eth1 = Some l1
           \<and> (buf eth1 = [] \<or> 14 \<le> length (buf eth1))
           \<and> maxPacketSize eth1 = maxPacketSize eth"
proof (cases "buf eth = [] \<and> length out < 14")
  case True
  then show ?thesis using assms by (simp add: ECMRx_drop)
next
  case False
  then have go: "buf eth \<noteq> [] \<or> 14 \<le> length out" by auto
  have len: "14 \<le> length (buf eth @ out)" using go assms(2) by auto
  show ?thesis
  proof (cases "int (length out) = maxPacketSize eth")
    case True
    then show ?thesis using go len assms(1) by (simp add: ECMRx_defer)
  next
    case False
    then show ?thesis using go len assms(1) by (simp add: ECMRx_dispatch)
  qed
qed

lemma rx_all_total:
  "Link eth = Some l \<Longrightarrow> buf eth = [] \<or> 14 \<le> length (buf eth) \<Longrightarrow>
   \<exists>eth1 l1. rx_all eth cs = Inr eth1 \<and> Link eth1 = Some l1
     \<and> (buf eth1 = [] \<or> 14 \<le> length (buf eth1))
     \<and> maxPacketSize eth1 = maxPacketSize eth"
proof (induction cs arbitrary: eth l)
  case Nil
  then show ?case by simp
next
  case (Cons c cs)
  from ECMRx_step [OF Cons.prems, of c None]
  obtain eth1 l1 where s: "ECMRx eth c None = Inr (eth1, [], None)" "Link eth1 = Some l1"
    "buf eth1 = [] \<or> 14 \<le> length (buf eth1)" "maxPacketSize eth1 = maxPacketSize eth"
    by blast
  from Cons.IH [OF s(2) s(3)] s(1) s(4) show ?case by simp
qed

lemma rx_all_append:
  "rx_all eth (xs @ ys) = (case rx_all eth xs of Inl p \<Rightarrow> Inl p | Inr eth1 \<Rightarrow> rx_all eth1 ys)"
  by (induction xs arbitrary: eth) (auto split: sum.splits)

lemma endpoint_function_buf_ok:
  assumes "endpoint_function eth c = Inr (eth1, a, b)"
    and "buf eth = [] \<or> 14 \<le> length (buf eth)"
  shows "buf eth1 = [] \<or> 14 \<le> length (buf eth1)"
proof (cases c)
  case (Rx out lastErr)
  with assms show ?thesis
    by (auto simp add: ECMRx_def Let_def split: if_splits option.splits)
next
  case (Tx unused lastErr)
  with assms show ?thesis
    by (auto simp add: ECMTx_def Let_def split: option.splits prod.splits)
next
  case (Control unused lastErr)
  with assms show ?thesis
    by (auto simp add: ECMControl_def)
qed

lemma calls_buf_ok:
  "calls eth cs = Inr eth1 \<Longrightarrow> buf eth = [] \<or> 14 \<le> length (buf eth) \<Longrightarrow>
   buf eth1 = [] \<or> 14 \<le> length (buf eth1)"
proof (induction cs arbitrary: eth)
  case Nil
  then show ?case by simp
next
  case (Cons c cs)
  from Cons.prems(1) obtain eth2 a b where
    s: "endpoint_function eth c = Inr (eth2, a, b)" and r: "calls eth2 cs = Inr eth1"
    by (auto split: sum.splits)
  from s Cons.prems(2) have "buf eth2 = [] \<or> 14 \<le> length (buf eth2)"
    by (rule endpoint_function_buf_ok)
  with Cons.IH [OF r] show ?case by simp
qed

lemma rx_all_full:
  "buf eth \<noteq> [] \<or> cs = [] \<or> 14 \<le> length (hd cs) \<Longrightarrow>
   list_all (\<lambda>c. int (length c) = maxPacketSize eth) cs \<Longrightarrow>
   rx_all eth cs = Inr (eth\<lparr>buf := buf eth @ concat cs\<rparr>)"
proof (induction cs arbitrary: eth)
  case Nil
  then show ?case by simp
next
  case (Cons c cs)
  have c: "int (length c) = maxPacketSize eth" using Cons.prems(2) by simp
  have go: "buf eth \<noteq> [] \<or> 14 \<le> length c" using Cons.prems(1) by simp
  have s: "ECMRx eth c None = Inr (eth\<lparr>buf := buf eth @ c\<rparr>, [], None)"
    using go c by (rule ECMRx_defer)
  have ne: "buf (eth\<lparr>buf := buf eth @ c\<rparr>) \<noteq> []" using go by auto
  have "rx_all (eth\<lparr>buf := buf eth @ c\<rparr>) cs
        = Inr (eth\<lparr>buf := buf eth @ c\<rparr>\<lparr>buf := buf (eth\<lparr>buf := buf eth @ c\<rparr>) @ concat cs\<rparr>)"
  proof (rule Cons.IH)
    show "buf (eth\<lparr>buf := buf eth @ c\<rparr>) \<noteq> [] \<or> cs = [] \<or> 14 \<le> length (hd cs)"
      using ne by (rule disjI1)
    show "list_all (\<lambda>c'. int (length c') = maxPacketSize (eth\<lparr>buf := buf eth @ c\<rparr>)) cs"
      using Cons.prems(2) by simp
  qed
  then show ?case using s by simp
qed

lemma ecm_transfers_first:
  assumes tr: "ecm_transfers mps cs" and mps: "14 \<le> mps" and len: "14 \<le> length (concat cs)"
  shows "14 \<le> length (hd cs)"
proof (cases cs)
  case Nil
  with tr show ?thesis by (simp add: ecm_transfers_def)
next
  case (Cons c rest)
  show ?thesis
  proof (cases rest)
    case Nil
    with Cons len show ?thesis by simp
  next
    case (Cons d rest')
    with \<open>cs = c # rest\<close> tr have "int (length c) = mps"
      by (simp add: ecm_transfers_def)
    with mps \<open>cs = c # rest\<close> show ?thesis by simp
  qed
qed

lemma rx_all_frame:
  assumes l: "Link eth = Some l"
    and first: "buf eth \<noteq> [] \<or> 14 \<le> length (hd cs)"
    and tr: "ecm_transfers (maxPacketSize eth) cs"
    and len: "14 \<le> length (buf eth @ concat cs)"
  shows "rx_all eth cs =
           Inr (eth\<lparr>Link := Some (l\<lparr>inbound := inbound l @
                  [(frame_proto (buf eth @ concat cs), frame_pkt (buf eth @ concat cs))]\<rparr>),
                buf := []\<rparr>)"
proof -
  from tr have ne: "cs \<noteq> []"
    and full: "list_all (\<lambda>c. int (length c) = maxPacketSize eth) (butlast cs)"
    and short: "int (length (last cs)) \<noteq> maxPacketSize eth"
    by (simp_all add: ecm_transfers_def)
  define eth1 where "eth1 = eth\<lparr>buf := buf eth @ concat (butlast cs)\<rparr>"
  have cs: "cs = butlast cs @ [last cs]" using ne by simp
  have cc: "concat cs = concat (butlast cs) @ last cs"
    by (subst cs) simp
  have hd_bl: "butlast cs \<noteq> [] \<Longrightarrow> hd (butlast cs) = hd cs"
    using ne by (cases cs) auto
  have hd_last: "butlast cs = [] \<Longrightarrow> hd cs = last cs"
    using ne by (cases cs) (auto split: if_splits)
  have first_bl: "buf eth \<noteq> [] \<or> butlast cs = [] \<or> 14 \<le> length (hd (butlast cs))"
  proof (cases "butlast cs = []")
    case True
    then show ?thesis by simp
  next
    case False
    then have "hd (butlast cs) = hd cs" by (rule hd_bl)
    with first show ?thesis by auto
  qed
  have r1: "rx_all eth (butlast cs) = Inr eth1"
    unfolding eth1_def using first_bl full by (rule rx_all_full)
  have b1: "buf eth1 = buf eth @ concat (butlast cs)" by (simp add: eth1_def)
  have e: "buf eth @ concat cs = buf eth1 @ last cs"
    by (simp only: b1 cc append_assoc)
  have go: "buf eth1 \<noteq> [] \<or> 14 \<le> length (last cs)"
  proof (cases "butlast cs = []")
    case True
    with first hd_last b1 show ?thesis by auto
  next
    case False
    with first_bl have "buf eth \<noteq> [] \<or> 14 \<le> length (hd (butlast cs))" by simp
    then have "buf eth \<noteq> [] \<or> concat (butlast cs) \<noteq> []"
      using False by (cases "butlast cs") auto
    with b1 show ?thesis by simp
  qed
  have s: "ECMRx eth1 (last cs) None =
      Inr (eth1\<lparr>Link := Some (l\<lparr>inbound := inbound l @
             [(frame_proto (buf eth1 @ last cs), frame_pkt (buf eth1 @ last cs))]\<rparr>),
           buf := []\<rparr>, [], None)"
  proof (rule ECMRx_dispatch)
    show "buf eth1 \<noteq> [] \<or> 14 \<le> length (last cs)" by (rule go)
    show "int (length (last cs)) \<noteq> maxPacketSize eth1" using short by (simp add: eth1_def)
    show "14 \<le> length (buf eth1 @ last cs)" using len unfolding e .
    show "Link eth1 = Some l" using l by (simp add: eth1_def)
  qed
  have "rx_all eth cs = rx_all eth (butlast cs @ [last cs])" using cs by simp
  also have "\<dots> = Inr (eth1\<lparr>Link := Some (l\<lparr>inbound := inbound l @
             [(frame_proto (buf eth1 @ last cs), frame_pkt (buf eth1 @ last cs))]\<rparr>),
           buf := []\<rparr>)"
    by (simp add: rx_all_append r1 s)
  finally show ?thesis by (simp add: e [symmetric]) (simp add: eth1_def)
qed

subsection \<open>ECMTx\<close>

lemma foldl_append_concat: "foldl (\<lambda>acc v. acc @ v) a vs = a @ concat vs"
  by (induction vs arbitrary: a) simp_all

lemma ECMTx_empty:
  "Link eth = Some l \<Longrightarrow> outbound l = [] \<Longrightarrow> ECMTx eth x e = Inr (eth, [], None)"
  by (simp add: ECMTx_def Read_def)

lemma ECMTx_packet:
  "Link eth = Some l \<Longrightarrow> outbound l = pkt # rest \<Longrightarrow>
   ECMTx eth x e =
     Inr (eth\<lparr>Link := Some (l\<lparr>outbound := rest\<rparr>)\<rparr>,
          HostMAC eth @ DeviceMAC eth @ PutUint16 (ucast (NetworkProtocolNumber pkt))
            @ concat (AsSlices pkt), None)"
  by (simp add: ECMTx_def Read_def Let_def foldl_append_concat)

lemma tx_frame_header:
  assumes hm: "length h = 6" and dm: "length d = 6"
  shows "slice (h @ d @ PutUint16 v @ p) 12 14 = PutUint16 v"
    and "take 12 (slice (h @ d @ PutUint16 v @ p) 0 14) = h @ d"
    and "drop 14 (h @ d @ PutUint16 v @ p) = p"
  using hm dm by (simp_all add: slice_def PutUint16_def)

lemma injected_dispatch:
  "Link eth = Some l \<Longrightarrow>
   injected (Inr (eth\<lparr>Link := Some (l\<lparr>inbound := inbound l @ [(t, frame_pkt b)]\<rparr>), buf := bf\<rparr>))
     = injected (Inr eth) @ [(t, drop 14 b)]"
  by (simp add: injected_def frame_pkt_fields)

subsection \<open>Injected packets and buffer length\<close>

lemma length_concat_full:
  "\<forall>c \<in> set cs. int (length c) = m \<Longrightarrow> int (length (concat cs)) = int (length cs) * m"
  by (induction cs) (simp_all add: algebra_simps)

section \<open>Frame reassembly\<close>

text \<open>
  C1. On a NIC reached from an empty buffer by any sequence of calls of its endpoint
  functions, a receive call with the buffer non-empty or a chunk of at least 14 bytes
  does one of two things. If the
  chunk's length differs from the maximum packet size, exactly one packet is injected:
  its protocol number is the big-endian 16-bit value at bytes 12 and 13 of the
  accumulated buffer, its payload the bytes from 14 on, and the buffer is reset to empty.
  If the chunk's length equals the maximum packet size, nothing is injected and the
  buffer keeps the appended bytes.
\<close>

theorem C1_receive:
  assumes fresh: "buf eth0 = []" and run: "calls eth0 cs = Inr eth"
    and l: "Link eth = Some l" and go: "buf eth \<noteq> [] \<or> 14 \<le> length chunk"
  shows "(int (length chunk) \<noteq> maxPacketSize eth \<longrightarrow>
            ECMRx eth chunk e =
              Inr (eth\<lparr>Link := Some (l\<lparr>inbound := inbound l @
                     [(frame_proto (buf eth @ chunk), frame_pkt (buf eth @ chunk))]\<rparr>),
                   buf := []\<rparr>, [], None)
            \<and> unat (frame_proto (buf eth @ chunk))
                = 256 * unat ((buf eth @ chunk) ! 12) + unat ((buf eth @ chunk) ! 13)
            \<and> Payload (frame_pkt (buf eth @ chunk)) = [drop 14 (buf eth @ chunk)])
       \<and> (int (length chunk) = maxPacketSize eth \<longrightarrow>
            ECMRx eth chunk e = Inr (eth\<lparr>buf := buf eth @ chunk\<rparr>, [], None))"
proof -
  have ok: "buf eth = [] \<or> 14 \<le> length (buf eth)"
    using run fresh by (auto dest: calls_buf_ok)
  have len: "14 \<le> length (buf eth @ chunk)"
    using ok go by auto
  show ?thesis
    using go len l
    by (simp add: ECMRx_dispatch ECMRx_defer frame_proto_value frame_pkt_fields)
qed

theorem C1_receive_witness:
  "ECMRx nic0 frame20 None =
     Inr (nic0\<lparr>Link := Some (link0\<lparr>inbound := [(0x0800, frame_pkt frame20)]\<rparr>),
               buf := []\<rparr>, [], None)
   \<and> Payload (frame_pkt frame20) = [[1, 2, 3, 4, 5, 6]]
   \<and> ECMRx nic0 chunk512 None = Inr (nic0\<lparr>buf := chunk512\<rparr>, [], None)"
proof -
  have h1: "buf nic0 = []" by (simp add: nic0_def)
  have h2: "calls nic0 [] = Inr nic0" by simp
  have h3: "Link nic0 = Some link0" by (simp add: nic0_def)
  have h4: "buf nic0 \<noteq> [] \<or> 14 \<le> length frame20" by (simp add: frame20_def)
  have h5: "buf nic0 \<noteq> [] \<or> 14 \<le> length chunk512" by (simp add: chunk512_def)
  have m: "maxPacketSize nic0 = 512" by (simp add: nic0_def MaxPacketSize_def)
  have p: "frame_proto frame20 = 0x0800"
    by (simp add: frame_proto_def frame20_def slice_def Uint16_def)
  have i: "inbound link0 = []" by (simp add: link0_def)
  have a: "int (length frame20) \<noteq> maxPacketSize nic0" by (simp add: m frame20_def)
  have b: "int (length chunk512) = maxPacketSize nic0" by (simp add: m chunk512_def)
  from C1_receive [OF h1 h2 h3 h4, of None] a
  have 1: "ECMRx nic0 frame20 None =
     Inr (nic0\<lparr>Link := Some (link0\<lparr>inbound := [(0x0800, frame_pkt frame20)]\<rparr>),
               buf := []\<rparr>, [], None)"
    and 2: "Payload (frame_pkt frame20) = [drop 14 (buf nic0 @ frame20)]"
    by (simp_all add: h1 p i)
  from C1_receive [OF h1 h2 h3 h5, of None] b
  have 3: "ECMRx nic0 chunk512 None = Inr (nic0\<lparr>buf := chunk512\<rparr>, [], None)"
    by (simp add: h1)
  from 2 have "Payload (frame_pkt frame20) = [[1, 2, 3, 4, 5, 6]]"
    by (simp add: h1 frame20_def)
  with 1 3 show ?thesis by simp
qed

text \<open>
  C2. On a NIC with an empty buffer and a maximum packet size of at least 14, a
  transfer of exactly the maximum packet size injects nothing and is retained; the
  zero-length transfer that follows injects exactly one packet, whose payload has
  the maximum packet size minus 14 bytes.
\<close>

theorem C2_full_transfer_then_zero_length:
  assumes l: "Link eth = Some l" and fresh: "buf eth = []"
    and full: "int (length chunk) = maxPacketSize eth" and mps: "14 \<le> maxPacketSize eth"
  shows "ECMRx eth chunk e1 = Inr (eth\<lparr>buf := chunk\<rparr>, [], None)
       \<and> ECMRx (eth\<lparr>buf := chunk\<rparr>) [] e2 =
           Inr (eth\<lparr>Link := Some (l\<lparr>inbound := inbound l @
                  [(frame_proto chunk, frame_pkt chunk)]\<rparr>), buf := []\<rparr>, [], None)
       \<and> Payload (frame_pkt chunk) = [drop 14 chunk]
       \<and> int (length (drop 14 chunk)) = maxPacketSize eth - 14"
proof -
  have c14: "14 \<le> length chunk" using full mps by linarith
  have 1: "ECMRx eth chunk e1 = Inr (eth\<lparr>buf := chunk\<rparr>, [], None)"
    using c14 full fresh by (simp add: ECMRx_defer)
  have ne: "chunk \<noteq> []" using c14 by auto
  have 2: "ECMRx (eth\<lparr>buf := chunk\<rparr>) [] e2 =
           Inr (eth\<lparr>Link := Some (l\<lparr>inbound := inbound l @
                  [(frame_proto chunk, frame_pkt chunk)]\<rparr>), buf := []\<rparr>, [], None)"
    using ECMRx_dispatch [of "eth\<lparr>buf := chunk\<rparr>" "[]" l e2] ne c14 mps l by simp
  have 3: "int (length (drop 14 chunk)) = maxPacketSize eth - 14"
    using c14 full by simp
  from 1 2 3 show ?thesis by (simp add: frame_pkt_fields)
qed

theorem C2_full_transfer_then_zero_length_witness:
  "ECMRx nic0 chunk512 None = Inr (nic0\<lparr>buf := chunk512\<rparr>, [], None)
   \<and> ECMRx (nic0\<lparr>buf := chunk512\<rparr>) [] None =
       Inr (nic0\<lparr>Link := Some (link0\<lparr>inbound := [(frame_proto chunk512, frame_pkt chunk512)]\<rparr>),
                 buf := []\<rparr>, [], None)
   \<and> length (drop 14 chunk512) = 498"
proof -
  have h1: "Link nic0 = Some link0" by (simp add: nic0_def)
  have h2: "buf nic0 = []" by (simp add: nic0_def)
  have m: "maxPacketSize nic0 = 512" by (simp add: nic0_def MaxPacketSize_def)
  have h3: "int (length chunk512) = maxPacketSize nic0" by (simp add: m chunk512_def)
  have h4: "14 \<le> maxPacketSize nic0" by (simp add: m)
  have i: "inbound link0 = []" by (simp add: link0_def)
  from C2_full_transfer_then_zero_length [OF h1 h2 h3 h4, of None None]
  show ?thesis by (simp add: i m)
qed

text \<open>
  C7. From an empty buffer, with a maximum packet size of at least 14 and chunks no
  longer than it, every prefix of a sequence of receive calls returns, and leaves a
  buffer that is empty or holds at least 14 bytes.
\<close>

theorem C7_buffer_empty_or_header:
  assumes fresh: "buf eth = []" and l: "Link eth = Some l"
    and mps: "14 \<le> maxPacketSize eth"
    and small: "\<forall>c \<in> set cs. int (length c) \<le> maxPacketSize eth"
    and n: "n \<le> length cs"
  shows "\<exists>eth1. rx_all eth (take n cs) = Inr eth1
           \<and> (length (buf eth1) = 0 \<or> 14 \<le> length (buf eth1))"
proof -
  have ok: "buf eth = [] \<or> 14 \<le> length (buf eth)" using fresh by simp
  from rx_all_total [OF l ok, of "take n cs"]
  show ?thesis by auto
qed

theorem C7_buffer_empty_or_header_witness:
  "\<exists>eth1. rx_all nic0 (take 2 [chunk512, frame20, chunk512]) = Inr eth1
           \<and> (length (buf eth1) = 0 \<or> 14 \<le> length (buf eth1))"
proof -
  have h1: "buf nic0 = []" by (simp add: nic0_def)
  have h2: "Link nic0 = Some link0" by (simp add: nic0_def)
  have m: "maxPacketSize nic0 = 512" by (simp add: nic0_def MaxPacketSize_def)
  have h3: "14 \<le> maxPacketSize nic0" by (simp add: m)
  have h4: "\<forall>c \<in> set [chunk512, frame20, chunk512]. int (length c) \<le> maxPacketSize nic0"
    by (simp add: m chunk512_def frame20_def)
  have h5: "2 \<le> length [chunk512, frame20, chunk512]" by simp
  from C7_buffer_empty_or_header [OF h1 h2 h3 h4 h5] show ?thesis .
qed

text \<open>
  C8. With an empty buffer, a chunk shorter than 14 bytes is dropped: the call returns
  no bytes and no error and leaves the NIC, its buffer and its link as they were, so
  nothing is injected. A frame that follows, whose first transfer has at least 14
  bytes and which ends with the first transfer of another length than the maximum
  packet size, is injected as one packet with the protocol number at its bytes 12 and
  13 and its bytes from 14 on as payload.
\<close>

theorem C8_short_first_chunk_dropped:
  assumes fresh: "buf eth = []" and short: "length chunk < 14"
  shows "ECMRx eth chunk e = Inr (eth, [], None)
       \<and> (\<forall>l cs. Link eth = Some l \<and> ecm_transfers (maxPacketSize eth) cs
                  \<and> 14 \<le> length (hd cs) \<longrightarrow>
            rx_all eth (chunk # cs) =
              Inr (eth\<lparr>Link := Some (l\<lparr>inbound := inbound l @
                     [(frame_proto (concat cs), frame_pkt (concat cs))]\<rparr>), buf := []\<rparr>)
            \<and> unat (frame_proto (concat cs))
                = 256 * unat (concat cs ! 12) + unat (concat cs ! 13)
            \<and> Payload (frame_pkt (concat cs)) = [drop 14 (concat cs)])"
proof -
  have d: "ECMRx eth chunk e' = Inr (eth, [], None)" for e'
    using fresh short by (rule ECMRx_drop)
  have "rx_all eth (chunk # cs) =
              Inr (eth\<lparr>Link := Some (l\<lparr>inbound := inbound l @
                     [(frame_proto (concat cs), frame_pkt (concat cs))]\<rparr>), buf := []\<rparr>)
            \<and> unat (frame_proto (concat cs))
                = 256 * unat (concat cs ! 12) + unat (concat cs ! 13)
            \<and> Payload (frame_pkt (concat cs)) = [drop 14 (concat cs)]"
    if l: "Link eth = Some l" and tr: "ecm_transfers (maxPacketSize eth) cs"
      and first: "14 \<le> length (hd cs)" for l cs
  proof -
    from tr have ne: "cs \<noteq> []" by (simp add: ecm_transfers_def)
    then have "length (hd cs) \<le> length (concat cs)" by (cases cs) simp_all
    with first have len: "14 \<le> length (concat cs)" by simp
    have "rx_all eth cs =
              Inr (eth\<lparr>Link := Some (l\<lparr>inbound := inbound l @
                     [(frame_proto (buf eth @ concat cs), frame_pkt (buf eth @ concat cs))]\<rparr>),
                   buf := []\<rparr>)"
      using l first tr len fresh by (intro rx_all_frame) simp_all
    then show ?thesis
      using len by (simp add: d fresh frame_proto_value frame_pkt_fields)
  qed
  with d show ?thesis by blast
qed

theorem C8_short_first_chunk_dropped_witness:
  "ECMRx nic0 [1, 2, 3] None = Inr (nic0, [], None)
   \<and> rx_all nic0 [[1, 2, 3], chunk512, frame20] =
       Inr (nic0\<lparr>Link := Some (link0\<lparr>inbound :=
              [(frame_proto (chunk512 @ frame20), frame_pkt (chunk512 @ frame20))]\<rparr>),
            buf := []\<rparr>)"
proof -
  have h1: "buf nic0 = []" by (simp add: nic0_def)
  have h2: "length [1, 2, 3 :: byte] < 14" by simp
  have h3: "Link nic0 = Some link0" by (simp add: nic0_def)
  have m: "maxPacketSize nic0 = 512" by (simp add: nic0_def MaxPacketSize_def)
  have h4: "ecm_transfers (maxPacketSize nic0) [chunk512, frame20]"
    by (simp add: ecm_transfers_def m chunk512_def frame20_def)
  have h5: "14 \<le> length (hd [chunk512, frame20])" by (simp add: chunk512_def)
  have i: "inbound link0 = []" by (simp add: link0_def)
  from C8_short_first_chunk_dropped [OF h1 h2, of None] h3 h4 h5
  have "ECMRx nic0 [1, 2, 3] None = Inr (nic0, [], None)"
    and "rx_all nic0 ([1, 2, 3] # [chunk512, frame20]) =
              Inr (nic0\<lparr>Link := Some (link0\<lparr>inbound := inbound link0 @
                     [(frame_proto (concat [chunk512, frame20]),
                       frame_pkt (concat [chunk512, frame20]))]\<rparr>), buf := []\<rparr>)"
    by blast+
  then show ?thesis by (simp add: i)
qed

text \<open>
  C10. On a NIC reached from an empty buffer by calls of its endpoint functions, a
  chunk strictly longer than the maximum packet size (with the buffer non-empty or the
  chunk of at least 14 bytes) is not retained: the accumulated buffer is injected at
  once as one packet and the buffer is reset to empty.
\<close>

theorem C10_longer_chunk_dispatched:
  assumes fresh: "buf eth0 = []" and run: "calls eth0 cs = Inr eth"
    and l: "Link eth = Some l" and go: "buf eth \<noteq> [] \<or> 14 \<le> length chunk"
    and long: "maxPacketSize eth < int (length chunk)"
  shows "ECMRx eth chunk e =
           Inr (eth\<lparr>Link := Some (l\<lparr>inbound := inbound l @
                  [(frame_proto (buf eth @ chunk), frame_pkt (buf eth @ chunk))]\<rparr>),
                buf := []\<rparr>, [], None)
         \<and> Payload (frame_pkt (buf eth @ chunk)) = [drop 14 (buf eth @ chunk)]"
proof -
  have ok: "buf eth = [] \<or> 14 \<le> length (buf eth)"
    using run fresh by (auto dest: calls_buf_ok)
  have len: "14 \<le> length (buf eth @ chunk)"
    using ok go by auto
  have ne: "int (length chunk) \<noteq> maxPacketSize eth" using long by simp
  show ?thesis
    using go ne len l by (simp add: ECMRx_dispatch frame_pkt_fields)
qed

theorem C10_longer_chunk_dispatched_witness:
  "ECMRx (nic0\<lparr>buf := chunk512\<rparr>) (chunk512 @ [7]) None =
     Inr (nic0\<lparr>Link := Some (link0\<lparr>inbound :=
            [(frame_proto (chunk512 @ chunk512 @ [7]), frame_pkt (chunk512 @ chunk512 @ [7]))]\<rparr>),
          buf := []\<rparr>, [], None)"
proof -
  have h1: "buf nic0 = []" by (simp add: nic0_def)
  have m: "maxPacketSize nic0 = 512" by (simp add: nic0_def MaxPacketSize_def)
  have h2: "calls nic0 [Tx [] None, Rx chunk512 None] = Inr (nic0\<lparr>buf := chunk512\<rparr>)"
    using ECMTx_empty [of nic0 link0 "[]" None] ECMRx_defer [of nic0 chunk512 None]
    by (simp add: h1 m chunk512_def, simp add: nic0_def link0_def)
  have h3: "Link (nic0\<lparr>buf := chunk512\<rparr>) = Some link0" by (simp add: nic0_def)
  have h4: "buf (nic0\<lparr>buf := chunk512\<rparr>) \<noteq> [] \<or> 14 \<le> length (chunk512 @ [7])"
    by (simp add: chunk512_def)
  have h5: "maxPacketSize (nic0\<lparr>buf := chunk512\<rparr>) < int (length (chunk512 @ [7]))"
    by (simp add: m chunk512_def)
  have i: "inbound link0 = []" by (simp add: link0_def)
  from C10_longer_chunk_dispatched [OF h1 h2 h3 h4 h5, of None]
  show ?thesis by (simp add: i)
qed

section \<open>Frame transmission\<close>

text \<open>
  C3. With a link attached and 6-byte MAC addresses, a call of ECMTx on an empty
  outbound queue returns an empty result and changes nothing. Otherwise it removes
  exactly the oldest packet from the queue and returns one frame: the Host MAC, the
  Device MAC, the two bytes that encode the packet's protocol number big-endian (its
  low 16 bits, the number itself when it is below 65536), 14 bytes in all, followed by
  the packet's views concatenated in order.
\<close>

theorem C3_transmit:
  assumes l: "Link eth = Some l"
    and hm: "length (HostMAC eth) = 6" and dm: "length (DeviceMAC eth) = 6"
  shows "(outbound l = [] \<longrightarrow> ECMTx eth x e = Inr (eth, [], None))
       \<and> (\<forall>pkt rest. outbound l = pkt # rest \<longrightarrow>
            (\<exists>hi lo.
               ECMTx eth x e =
                 Inr (eth\<lparr>Link := Some (l\<lparr>outbound := rest\<rparr>)\<rparr>,
                      (HostMAC eth @ DeviceMAC eth @ [hi, lo]) @ concat (AsSlices pkt), None)
               \<and> 256 * unat hi + unat lo = unat (NetworkProtocolNumber pkt) mod 65536
               \<and> length (HostMAC eth @ DeviceMAC eth @ [hi, lo]) = 14))"
proof -
  have "\<exists>hi lo.
               ECMTx eth x e =
                 Inr (eth\<lparr>Link := Some (l\<lparr>outbound := rest\<rparr>)\<rparr>,
                      (HostMAC eth @ DeviceMAC eth @ [hi, lo]) @ concat (AsSlices pkt), None)
               \<and> 256 * unat hi + unat lo = unat (NetworkProtocolNumber pkt) mod 65536
               \<and> length (HostMAC eth @ DeviceMAC eth @ [hi, lo]) = 14"
    if q: "outbound l = pkt # rest" for pkt rest
  proof -
    define v :: uint16 where "v = ucast (NetworkProtocolNumber pkt)"
    define hi :: byte where "hi = ucast (drop_bit 8 v)"
    define lo :: byte where "lo = ucast v"
    have p: "PutUint16 v = [hi, lo]" by (simp add: PutUint16_def hi_def lo_def)
    have "256 * unat hi + unat lo = unat v" using p by (rule PutUint16_value)
    then have val: "256 * unat hi + unat lo = unat (NetworkProtocolNumber pkt) mod 65536"
      by (simp add: v_def uint16_of_uint32)
    have "ECMTx eth x e =
            Inr (eth\<lparr>Link := Some (l\<lparr>outbound := rest\<rparr>)\<rparr>,
                 HostMAC eth @ DeviceMAC eth @ PutUint16 v @ concat (AsSlices pkt), None)"
      unfolding v_def using l q by (rule ECMTx_packet)
    with p val hm dm show ?thesis by auto
  qed
  moreover have "outbound l = [] \<Longrightarrow> ECMTx eth x e = Inr (eth, [], None)"
    using l by (rule ECMTx_empty)
  ultimately show ?thesis by blast
qed

theorem C3_transmit_witness:
  "ECMTx nic0 [] None = Inr (nic0, [], None)
   \<and> (\<exists>hi lo. ECMTx (nic0\<lparr>Link := Some (link0\<lparr>outbound := [pkt_ipv4, pkt_wide]\<rparr>)\<rparr>) [] None
         = Inr (nic0\<lparr>Link := Some (link0\<lparr>outbound := [pkt_wide]\<rparr>)\<rparr>,
                (HostMAC nic0 @ DeviceMAC nic0 @ [hi, lo]) @ [1, 2, 3], None)
         \<and> 256 * unat hi + unat lo = 2048)"
proof -
  define nic1 where "nic1 = nic0\<lparr>Link := Some (link0\<lparr>outbound := [pkt_ipv4, pkt_wide]\<rparr>)\<rparr>"
  define link1 where "link1 = link0\<lparr>outbound := [pkt_ipv4, pkt_wide]\<rparr>"
  have h1: "Link nic0 = Some link0" by (simp add: nic0_def)
  have h2: "length (HostMAC nic0) = 6" by (simp add: nic0_def)
  have h3: "length (DeviceMAC nic0) = 6" by (simp add: nic0_def)
  have q: "outbound link0 = []" by (simp add: link0_def)
  from C3_transmit [OF h1 h2 h3, of "[]" None] q
  have 1: "ECMTx nic0 [] None = Inr (nic0, [], None)" by blast
  have k1: "Link nic1 = Some link1" by (simp add: nic1_def link1_def)
  have k2: "length (HostMAC nic1) = 6" by (simp add: nic1_def nic0_def)
  have k3: "length (DeviceMAC nic1) = 6" by (simp add: nic1_def nic0_def)
  have q1: "outbound link1 = pkt_ipv4 # [pkt_wide]" by (simp add: link1_def)
  from C3_transmit [OF k1 k2 k3, of "[]" None] q1
  obtain hi lo where
    "ECMTx nic1 [] None =
       Inr (nic1\<lparr>Link := Some (link1\<lparr>outbound := [pkt_wide]\<rparr>)\<rparr>,
            (HostMAC nic1 @ DeviceMAC nic1 @ [hi, lo]) @ concat (AsSlices pkt_ipv4), None)"
    "256 * unat hi + unat lo = unat (NetworkProtocolNumber pkt_ipv4) mod 65536"
    by blast
  then have "ECMTx (nic0\<lparr>Link := Some (link0\<lparr>outbound := [pkt_ipv4, pkt_wide]\<rparr>)\<rparr>) [] None
         = Inr (nic0\<lparr>Link := Some (link0\<lparr>outbound := [pkt_wide]\<rparr>)\<rparr>,
                (HostMAC nic0 @ DeviceMAC nic0 @ [hi, lo]) @ [1, 2, 3], None)
         \<and> 256 * unat hi + unat lo = 2048"
    by (simp add: nic1_def link1_def pkt_ipv4_def AsSlices_def)
  with 1 show ?thesis by blast
qed

text \<open>
  C4 (as amended). Let a packet be the oldest of the outbound queue of a NIC with a
  link, 6-byte MAC addresses and an empty buffer, and let its protocol number be below
  65536. ECMTx returns a frame; fed back to ECMRx as transfers of which every one but the
  last has exactly the maximum packet size, the last has not, and the first has at least
  14 bytes, the frame is injected as exactly one packet, with the protocol number and
  the bytes of the transmitted packet, and with a link header whose first 12 bytes are
  the Host MAC followed by the Device MAC.
\<close>

theorem C4_round_trip:
  assumes l: "Link eth = Some l" and q: "outbound l = pkt # rest"
    and hm: "length (HostMAC eth) = 6" and dm: "length (DeviceMAC eth) = 6"
    and fresh: "buf eth = []"
    and t16: "unat (NetworkProtocolNumber pkt) < 65536"
  shows "\<exists>eth1 frame.
           ECMTx eth x e = Inr (eth1, frame, None)
           \<and> (\<forall>cs. ecm_transfers (maxPacketSize eth1) cs \<and> concat cs = frame
                     \<and> 14 \<le> length (hd cs) \<longrightarrow>
                rx_all eth1 cs =
                  Inr (eth1\<lparr>Link := Some (l\<lparr>inbound := inbound l @
                         [(NetworkProtocolNumber pkt, frame_pkt frame)], outbound := rest\<rparr>),
                       buf := []\<rparr>)
                \<and> injected (rx_all eth1 cs)
                    = injected (Inr eth) @ [(NetworkProtocolNumber pkt, concat (AsSlices pkt))])
           \<and> Payload (frame_pkt frame) = [concat (AsSlices pkt)]
           \<and> take 12 (LinkHeader (frame_pkt frame)) = HostMAC eth @ DeviceMAC eth"
proof -
  define v :: uint16 where "v = ucast (NetworkProtocolNumber pkt)"
  define l1 where "l1 = l\<lparr>outbound := rest\<rparr>"
  define eth1 where "eth1 = eth\<lparr>Link := Some l1\<rparr>"
  define frame where
    "frame = HostMAC eth @ DeviceMAC eth @ PutUint16 v @ concat (AsSlices pkt)"
  have tx: "ECMTx eth x e = Inr (eth1, frame, None)"
    unfolding eth1_def l1_def frame_def v_def using l q by (rule ECMTx_packet)
  have proto: "frame_proto frame = NetworkProtocolNumber pkt"
    using t16
    by (simp add: frame_proto_def frame_def tx_frame_header(1) [OF hm dm]
        Uint16_PutUint16 v_def uint32_uint16_id)
  have pay: "drop 14 frame = concat (AsSlices pkt)"
    unfolding frame_def using hm dm by (rule tx_frame_header(3))
  have hdr: "take 12 (LinkHeader (frame_pkt frame)) = HostMAC eth @ DeviceMAC eth"
    using tx_frame_header(2) [OF hm dm, of v "concat (AsSlices pkt)"]
    by (simp add: frame_pkt_fields frame_def slice_def)
  have len: "14 \<le> length frame"
    using hm dm by (simp add: frame_def PutUint16_def)
  have l1: "Link eth1 = Some l1" by (simp add: eth1_def)
  have b1: "buf eth1 = []" using fresh by (simp add: eth1_def)
  have inj0: "injected (Inr eth1) = injected (Inr eth)"
    using l by (simp add: injected_def eth1_def l1_def)
  have "rx_all eth1 cs =
                  Inr (eth1\<lparr>Link := Some (l\<lparr>inbound := inbound l @
                         [(NetworkProtocolNumber pkt, frame_pkt frame)], outbound := rest\<rparr>),
                       buf := []\<rparr>)
                \<and> injected (rx_all eth1 cs)
                    = injected (Inr eth) @ [(NetworkProtocolNumber pkt, concat (AsSlices pkt))]"
    if tr: "ecm_transfers (maxPacketSize eth1) cs" and cat: "concat cs = frame"
      and first: "14 \<le> length (hd cs)" for cs
  proof -
    have r: "rx_all eth1 cs =
           Inr (eth1\<lparr>Link := Some (l1\<lparr>inbound := inbound l1 @
                  [(frame_proto (buf eth1 @ concat cs), frame_pkt (buf eth1 @ concat cs))]\<rparr>),
                buf := []\<rparr>)"
      using l1 first tr len by (intro rx_all_frame) (simp_all add: b1 cat)
    have "injected (rx_all eth1 cs)
            = injected (Inr eth1) @ [(frame_proto (buf eth1 @ concat cs), drop 14 (buf eth1 @ concat cs))]"
      unfolding r using l1 by (rule injected_dispatch)
    then have i: "injected (rx_all eth1 cs)
                    = injected (Inr eth) @ [(NetworkProtocolNumber pkt, concat (AsSlices pkt))]"
      by (simp add: b1 cat proto pay inj0)
    from r have "rx_all eth1 cs =
                  Inr (eth1\<lparr>Link := Some (l\<lparr>inbound := inbound l @
                         [(NetworkProtocolNumber pkt, frame_pkt frame)], outbound := rest\<rparr>),
                       buf := []\<rparr>)"
      by (simp add: b1 cat proto l1_def)
    with i show ?thesis by simp
  qed
  then have round: "\<forall>cs. ecm_transfers (maxPacketSize eth1) cs \<and> concat cs = frame
                     \<and> 14 \<le> length (hd cs) \<longrightarrow>
                rx_all eth1 cs =
                  Inr (eth1\<lparr>Link := Some (l\<lparr>inbound := inbound l @
                         [(NetworkProtocolNumber pkt, frame_pkt frame)], outbound := rest\<rparr>),
                       buf := []\<rparr>)
                \<and> injected (rx_all eth1 cs)
                    = injected (Inr eth) @ [(NetworkProtocolNumber pkt, concat (AsSlices pkt))]"
    by blast
  have pl: "Payload (frame_pkt frame) = [concat (AsSlices pkt)]"
    by (simp add: frame_pkt_fields pay)
  show ?thesis
    by (rule exI [of _ eth1], rule exI [of _ frame]) (use tx round pl hdr in blast)
qed

theorem C4_round_trip_witness:
  "ECMTx (nic0\<lparr>Link := Some (link0\<lparr>outbound := [pkt_ipv4]\<rparr>)\<rparr>) [] None
     = Inr (nic0, frame17, None)
   \<and> injected (rx_all nic0 [frame17]) = [(0x0800, [1, 2, 3])]"
proof -
  define link1 where "link1 = link0\<lparr>outbound := [pkt_ipv4]\<rparr>"
  define nic1 where "nic1 = nic0\<lparr>Link := Some link1\<rparr>"
  have h1: "Link nic1 = Some link1" by (simp add: nic1_def)
  have h2: "outbound link1 = pkt_ipv4 # []" by (simp add: link1_def)
  have h3: "length (HostMAC nic1) = 6" by (simp add: nic1_def nic0_def)
  have h4: "length (DeviceMAC nic1) = 6" by (simp add: nic1_def nic0_def)
  have h5: "buf nic1 = []" by (simp add: nic1_def nic0_def)
  have h6: "unat (NetworkProtocolNumber pkt_ipv4) < 65536" by (simp add: pkt_ipv4_def)
  have tx: "ECMTx nic1 [] None = Inr (nic0, frame17, None)"
    by (simp add: ECMTx_def Read_def nic1_def link1_def nic0_def link0_def pkt_ipv4_def
        AsSlices_def PutUint16_def frame17_def)
  have m: "maxPacketSize nic0 = 512" by (simp add: nic0_def MaxPacketSize_def)
  have tr: "ecm_transfers (maxPacketSize nic0) [frame17]"
    by (simp add: ecm_transfers_def m frame17_def)
  have first: "14 \<le> length (hd [frame17])" by (simp add: frame17_def)
  from C4_round_trip [OF h1 h2 h3 h4 h5 h6, of "[]" None] tx tr first
  have "injected (rx_all nic0 [frame17])
          = injected (Inr nic1) @ [(NetworkProtocolNumber pkt_ipv4, concat (AsSlices pkt_ipv4))]"
    by auto
  then have "injected (rx_all nic0 [frame17]) = [(0x0800, [1, 2, 3])]"
    by (simp add: injected_def nic1_def link1_def link0_def pkt_ipv4_def AsSlices_def)
  with tx show ?thesis by (simp add: nic1_def link1_def)
qed

theorem C4_round_trip_counterexample:
  "ECMTx (nic0\<lparr>Link := Some (link0\<lparr>outbound := [pkt_wide]\<rparr>)\<rparr>) [] None
     = Inr (nic0, frame17, None)
   \<and> ecm_transfers (maxPacketSize nic0) [frame17]
   \<and> injected (rx_all nic0 [frame17]) = [(0x0800, [1, 2, 3])]
   \<and> NetworkProtocolNumber pkt_wide = 0x10800
   \<and> NetworkProtocolNumber pkt_wide \<noteq> 0x0800
   \<and> ECMTx (nic0\<lparr>Link := Some (link0\<lparr>outbound := [pkt_ipv4]\<rparr>), maxPacketSize := 8\<rparr>) [] None
       = Inr (nic0\<lparr>maxPacketSize := 8\<rparr>, frame17, None)
   \<and> ecm_transfers 8 [take 8 frame17, take 8 (drop 8 frame17), drop 16 frame17]
   \<and> concat [take 8 frame17, take 8 (drop 8 frame17), drop 16 frame17] = frame17
   \<and> injected (rx_all (nic0\<lparr>maxPacketSize := 8\<rparr>)
         [take 8 frame17, take 8 (drop 8 frame17), drop 16 frame17]) = []"
proof -
  have m: "maxPacketSize nic0 = 512" by (simp add: nic0_def MaxPacketSize_def)
  have 1: "ECMTx (nic0\<lparr>Link := Some (link0\<lparr>outbound := [pkt_wide]\<rparr>)\<rparr>) [] None
     = Inr (nic0, frame17, None)"
    by (simp add: ECMTx_def Read_def nic0_def link0_def pkt_wide_def
        AsSlices_def PutUint16_def frame17_def)
  have 2: "ecm_transfers (maxPacketSize nic0) [frame17]"
    by (simp add: ecm_transfers_def m frame17_def)
  have p: "frame_proto frame17 = 0x0800"
    by (simp add: frame_proto_def frame17_def slice_def Uint16_def)
  have bn: "buf nic0 = []" and ln: "Link nic0 = Some link0" by (simp_all add: nic0_def)
  have il: "inbound link0 = []" by (simp add: link0_def)
  have lf: "length frame17 = 17" by (simp add: frame17_def)
  have pl: "drop 14 frame17 = [1, 2, 3]" by (simp add: frame17_def)
  have rx: "ECMRx nic0 frame17 None =
     Inr (nic0\<lparr>Link := Some (link0\<lparr>inbound := [(0x0800, frame_pkt frame17)]\<rparr>),
              buf := []\<rparr>, [], None)"
    using ECMRx_dispatch [of nic0 frame17 link0 None] by (simp add: bn ln il m p lf)
  have 3: "injected (rx_all nic0 [frame17]) = [(0x0800, [1, 2, 3])]"
    by (simp add: rx injected_def frame_pkt_fields pl)
  have 4: "NetworkProtocolNumber pkt_wide = 0x10800" by (simp add: pkt_wide_def)
  have 5: "NetworkProtocolNumber pkt_wide \<noteq> 0x0800" by (simp add: pkt_wide_def)
  have 6: "ECMTx (nic0\<lparr>Link := Some (link0\<lparr>outbound := [pkt_ipv4]\<rparr>), maxPacketSize := 8\<rparr>) [] None
       = Inr (nic0\<lparr>maxPacketSize := 8\<rparr>, frame17, None)"
    by (simp add: ECMTx_def Read_def nic0_def link0_def pkt_ipv4_def
        AsSlices_def PutUint16_def frame17_def)
  have 7: "ecm_transfers 8 [take 8 frame17, take 8 (drop 8 frame17), drop 16 frame17]"
    by (simp add: ecm_transfers_def frame17_def)
  have 8: "concat [take 8 frame17, take 8 (drop 8 frame17), drop 16 frame17] = frame17"
    by (simp add: frame17_def)
  have d: "ECMRx (nic0\<lparr>maxPacketSize := 8\<rparr>) c None = Inr (nic0\<lparr>maxPacketSize := 8\<rparr>, [], None)"
    if "length c < 14" for c
    using that by (intro ECMRx_drop) (simp_all add: nic0_def)
  have 9: "injected (rx_all (nic0\<lparr>maxPacketSize := 8\<rparr>)
         [take 8 frame17, take 8 (drop 8 frame17), drop 16 frame17]) = []"
    by (simp add: d frame17_def) (simp add: injected_def nic0_def link0_def)
  from 1 2 3 4 5 6 7 8 9 show ?thesis by (intro conjI)
qed

section \<open>Frames split over several transfers\<close>

text \<open>
  C5 (as amended). Let the transfers of a frame be such that every one but the last has
  exactly the maximum packet size, the last has another length, and the first has at
  least 14 bytes. Fed in order to ECMRx on a NIC with a link and an empty buffer, they
  inject exactly one packet, with the protocol number at bytes 12 and 13 of the frame and
  the frame's bytes from 14 on as payload, and leave the buffer empty. The frame
  as a single transfer has the same effect whenever its length is not the maximum
  packet size.
\<close>

theorem C5_split_reassembly:
  assumes l: "Link eth = Some l" and fresh: "buf eth = []"
    and tr: "ecm_transfers (maxPacketSize eth) cs" and first: "14 \<le> length (hd cs)"
  shows "rx_all eth cs =
           Inr (eth\<lparr>Link := Some (l\<lparr>inbound := inbound l @
                  [(frame_proto (concat cs), frame_pkt (concat cs))]\<rparr>), buf := []\<rparr>)
       \<and> injected (rx_all eth cs)
           = injected (Inr eth) @ [(frame_proto (concat cs), drop 14 (concat cs))]
       \<and> unat (frame_proto (concat cs)) = 256 * unat (concat cs ! 12) + unat (concat cs ! 13)
       \<and> (int (length (concat cs)) \<noteq> maxPacketSize eth \<longrightarrow>
            rx_all eth [concat cs] = rx_all eth cs)"
proof -
  from tr have ne: "cs \<noteq> []" by (simp add: ecm_transfers_def)
  then have "length (hd cs) \<le> length (concat cs)" by (cases cs) simp_all
  with first have len: "14 \<le> length (concat cs)" by simp
  have r: "rx_all eth cs =
           Inr (eth\<lparr>Link := Some (l\<lparr>inbound := inbound l @
                  [(frame_proto (buf eth @ concat cs), frame_pkt (buf eth @ concat cs))]\<rparr>),
                buf := []\<rparr>)"
    using l first tr len fresh by (intro rx_all_frame) simp_all
  then have 1: "rx_all eth cs =
           Inr (eth\<lparr>Link := Some (l\<lparr>inbound := inbound l @
                  [(frame_proto (concat cs), frame_pkt (concat cs))]\<rparr>), buf := []\<rparr>)"
    by (simp add: fresh)
  have 2: "injected (rx_all eth cs)
           = injected (Inr eth) @ [(frame_proto (concat cs), drop 14 (concat cs))]"
    unfolding 1 using l by (rule injected_dispatch)
  have 3: "unat (frame_proto (concat cs)) = 256 * unat (concat cs ! 12) + unat (concat cs ! 13)"
    using len by (rule frame_proto_value)
  have 4: "rx_all eth [concat cs] = rx_all eth cs"
    if neq: "int (length (concat cs)) \<noteq> maxPacketSize eth"
  proof -
    have "ECMRx eth (concat cs) None =
      Inr (eth\<lparr>Link := Some (l\<lparr>inbound := inbound l @
                 [(frame_proto (buf eth @ concat cs), frame_pkt (buf eth @ concat cs))]\<rparr>),
              buf := []\<rparr>, [], None)"
      using len neq l by (intro ECMRx_dispatch) simp_all
    then show ?thesis by (simp add: 1 fresh)
  qed
  from 1 2 3 4 show ?thesis by blast
qed

theorem C5_split_reassembly_witness:
  "rx_all nic0 [chunk512, frame20] =
     Inr (nic0\<lparr>Link := Some (link0\<lparr>inbound :=
            [(frame_proto (chunk512 @ frame20), frame_pkt (chunk512 @ frame20))]\<rparr>),
          buf := []\<rparr>)
   \<and> rx_all nic0 [chunk512 @ frame20] = rx_all nic0 [chunk512, frame20]"
proof -
  have h1: "Link nic0 = Some link0" by (simp add: nic0_def)
  have h2: "buf nic0 = []" by (simp add: nic0_def)
  have m: "maxPacketSize nic0 = 512" by (simp add: nic0_def MaxPacketSize_def)
  have h3: "ecm_transfers (maxPacketSize nic0) [chunk512, frame20]"
    by (simp add: ecm_transfers_def m chunk512_def frame20_def)
  have h4: "14 \<le> length (hd [chunk512, frame20])" by (simp add: chunk512_def)
  have i: "inbound link0 = []" by (simp add: link0_def)
  have n: "int (length (concat [chunk512, frame20])) \<noteq> maxPacketSize nic0"
    by (simp add: m chunk512_def frame20_def)
  from C5_split_reassembly [OF h1 h2 h3 h4] n
  have "rx_all nic0 [chunk512, frame20] =
           Inr (nic0\<lparr>Link := Some (link0\<lparr>inbound := inbound link0 @
                  [(frame_proto (concat [chunk512, frame20]),
                    frame_pkt (concat [chunk512, frame20]))]\<rparr>), buf := []\<rparr>)"
    and "rx_all nic0 [concat [chunk512, frame20]] = rx_all nic0 [chunk512, frame20]"
    by blast+
  then show ?thesis by (simp add: i)
qed

theorem C5_split_reassembly_counterexample:
  "14 \<le> length frame20
   \<and> concat [take 16 frame20, drop 16 frame20] = frame20
   \<and> int (length (take 16 frame20)) \<le> maxPacketSize nic0
   \<and> int (length (drop 16 frame20)) \<le> maxPacketSize nic0
   \<and> injected (rx_all nic0 [take 16 frame20, drop 16 frame20]) = [(0x0800, [1, 2])]
   \<and> injected (rx_all nic0 [frame20]) = [(0x0800, [1, 2, 3, 4, 5, 6])]"
proof -
  have m: "maxPacketSize nic0 = 512" by (simp add: nic0_def MaxPacketSize_def)
  have bn: "buf nic0 = []" and ln: "Link nic0 = Some link0" by (simp_all add: nic0_def)
  have il: "inbound link0 = []" by (simp add: link0_def)
  have lf: "length frame20 = 20" by (simp add: frame20_def)
  have t16: "take 16 frame20 = [0x1a, 0x55, 0x89, 0xa2, 0x69, 0x42, 0x1a, 0x55, 0x89, 0xa2,
                0x69, 0x41, 0x08, 0x00, 1, 2]"
    and d16: "drop 16 frame20 = [3, 4, 5, 6]"
    by (simp_all add: frame20_def)
  have p: "frame_proto frame20 = 0x0800"
    by (simp add: frame_proto_def frame20_def slice_def Uint16_def)
  have p16: "frame_proto (take 16 frame20) = 0x0800"
    by (simp add: t16) (simp add: frame_proto_def slice_def Uint16_def)
  have rx: "ECMRx nic0 frame20 None =
     Inr (nic0\<lparr>Link := Some (link0\<lparr>inbound := [(0x0800, frame_pkt frame20)]\<rparr>),
              buf := []\<rparr>, [], None)"
    using ECMRx_dispatch [of nic0 frame20 link0 None] by (simp add: bn ln il m p lf)
  have rx16: "ECMRx nic0 (take 16 frame20) None =
     Inr (nic0\<lparr>Link := Some (link0\<lparr>inbound := [(0x0800, frame_pkt (take 16 frame20))]\<rparr>),
              buf := []\<rparr>, [], None)"
    using ECMRx_dispatch [of nic0 "take 16 frame20" link0 None]
    by (simp add: bn ln il m p16 lf)
  have rx4: "ECMRx (nic0\<lparr>Link := Some (link0\<lparr>inbound := [(0x0800, frame_pkt (take 16 frame20))]\<rparr>),
              buf := []\<rparr>) (drop 16 frame20) None =
     Inr (nic0\<lparr>Link := Some (link0\<lparr>inbound := [(0x0800, frame_pkt (take 16 frame20))]\<rparr>),
              buf := []\<rparr>, [], None)"
    by (rule ECMRx_drop) (simp_all add: lf)
  have 1: "injected (rx_all nic0 [take 16 frame20, drop 16 frame20]) = [(0x0800, [1, 2])]"
    by (simp add: rx16 rx4 injected_def frame_pkt_fields) (simp add: frame20_def)
  have 2: "injected (rx_all nic0 [frame20]) = [(0x0800, [1, 2, 3, 4, 5, 6])]"
    by (simp add: rx injected_def frame_pkt_fields) (simp add: frame20_def)
  have 3: "concat [take 16 frame20, drop 16 frame20] = frame20" by simp
  from 1 2 3 show ?thesis by (simp add: m lf)
qed

section \<open>Buffer growth and transfer errors\<close>

text \<open>
  C6 (as amended). ECMRx puts no bound on its buffer. From an empty buffer and with a
  maximum packet size of at least 14, any number of transfers of exactly the maximum
  packet size are all retained: the buffer holds every byte received, as many as the
  number of transfers times the maximum packet size, and nothing is discarded.
\<close>

theorem C6_buffer_grows:
  assumes fresh: "buf eth = []" and mps: "14 \<le> maxPacketSize eth"
    and full: "\<forall>c \<in> set cs. int (length c) = maxPacketSize eth"
  shows "rx_all eth cs = Inr (eth\<lparr>buf := concat cs\<rparr>)
       \<and> int (length (concat cs)) = int (length cs) * maxPacketSize eth"
proof -
  have first: "buf eth \<noteq> [] \<or> cs = [] \<or> 14 \<le> length (hd cs)"
  proof (cases cs)
    case Nil
    then show ?thesis by simp
  next
    case (Cons c rest)
    with full have "int (length c) = maxPacketSize eth" by simp
    with mps Cons show ?thesis by simp
  qed
  have la: "list_all (\<lambda>c. int (length c) = maxPacketSize eth) cs"
    using full by (simp add: list_all_iff)
  have "rx_all eth cs = Inr (eth\<lparr>buf := buf eth @ concat cs\<rparr>)"
    using first la by (rule rx_all_full)
  then have "rx_all eth cs = Inr (eth\<lparr>buf := concat cs\<rparr>)" by (simp add: fresh)
  moreover have "int (length (concat cs)) = int (length cs) * maxPacketSize eth"
    using full by (rule length_concat_full)
  ultimately show ?thesis by simp
qed

theorem C6_buffer_grows_witness:
  "rx_all nic0 [chunk512, chunk512, chunk512] = Inr (nic0\<lparr>buf := chunk512 @ chunk512 @ chunk512\<rparr>)
   \<and> length (chunk512 @ chunk512 @ chunk512) = 1536"
proof -
  have h1: "buf nic0 = []" by (simp add: nic0_def)
  have m: "maxPacketSize nic0 = 512" by (simp add: nic0_def MaxPacketSize_def)
  have h2: "14 \<le> maxPacketSize nic0" by (simp add: m)
  have h3: "\<forall>c \<in> set [chunk512, chunk512, chunk512]. int (length c) = maxPacketSize nic0"
    by (simp add: m chunk512_def)
  from C6_buffer_grows [OF h1 h2 h3] show ?thesis by (simp add: chunk512_def)
qed

theorem C6_buffer_grows_counterexample:
  "rx_all nic0 [chunk512, chunk512, chunk512, chunk512]
     = Inr (nic0\<lparr>buf := chunk512 @ chunk512 @ chunk512 @ chunk512\<rparr>)
   \<and> length (chunk512 @ chunk512 @ chunk512 @ chunk512) = 2048
   \<and> MTU + 14 < length (chunk512 @ chunk512 @ chunk512 @ chunk512)
   \<and> injected (rx_all nic0 [chunk512, chunk512, chunk512, chunk512]) = []"
proof -
  have m: "maxPacketSize nic0 = 512" by (simp add: nic0_def MaxPacketSize_def)
  have bn: "buf nic0 = []" by (simp add: nic0_def)
  have r: "rx_all nic0 [chunk512, chunk512, chunk512, chunk512]
     = Inr (nic0\<lparr>buf := chunk512 @ chunk512 @ chunk512 @ chunk512\<rparr>)"
    using rx_all_full [of nic0 "[chunk512, chunk512, chunk512, chunk512]"]
    by (simp add: m bn chunk512_def)
  have i: "injected (Inr (nic0\<lparr>buf := chunk512 @ chunk512 @ chunk512 @ chunk512\<rparr>)) = []"
    by (simp add: injected_def nic0_def link0_def)
  from r i show ?thesis by (simp add: chunk512_def MTU_def)
qed

text \<open>
  C9 (as amended). The error passed in is not propagated: ECMRx and ECMTx ignore it.
  Each does exactly what it does with a nil error, and the error it returns is nil.
\<close>

theorem C9_last_error_ignored:
  "ECMRx eth out lastErr = ECMRx eth out None
   \<and> ECMTx eth unused lastErr = ECMTx eth unused None
   \<and> returned_err (ECMRx eth out lastErr) = None
   \<and> returned_err (ECMTx eth unused lastErr) = None"
  by (simp add: ECMRx_def ECMTx_def returned_err_def Let_def split: option.split prod.split)

theorem C9_last_error_ignored_counterexample:
  "returned_err (ECMRx nic0 frame20 (Some ''transfer error'')) \<noteq> Some ''transfer error''
   \<and> returned_err (ECMTx (nic0\<lparr>Link := Some (link0\<lparr>outbound := [pkt_ipv4]\<rparr>)\<rparr>) []
        (Some ''transfer error'')) \<noteq> Some ''transfer error''
   \<and> ECMTx (nic0\<lparr>Link := Some (link0\<lparr>outbound := [pkt_ipv4]\<rparr>)\<rparr>) []
        (Some ''transfer error'') = Inr (nic0, frame17, None)"
proof -
  have tx: "ECMTx (nic0\<lparr>Link := Some (link0\<lparr>outbound := [pkt_ipv4]\<rparr>)\<rparr>) []
        (Some ''transfer error'') = Inr (nic0, frame17, None)"
    by (simp add: ECMTx_def Read_def nic0_def link0_def pkt_ipv4_def
        AsSlices_def PutUint16_def frame17_def)
  have bn: "buf nic0 = []" and ln: "Link nic0 = Some link0" by (simp_all add: nic0_def)
  have m: "maxPacketSize nic0 = 512" by (simp add: nic0_def MaxPacketSize_def)
  have lf: "length frame20 = 20" by (simp add: frame20_def)
  have rx: "ECMRx nic0 frame20 (Some ''transfer error'') =
     Inr (nic0\<lparr>Link := Some (link0\<lparr>inbound := inbound link0 @
                 [(frame_proto (buf nic0 @ frame20), frame_pkt (buf nic0 @ frame20))]\<rparr>),
              buf := []\<rparr>, [], None)"
    by (rule ECMRx_dispatch) (simp_all add: bn ln m lf)
  show ?thesis by (simp add: tx rx returned_err_def)
qed

end
